theory Spec2Isabelle
  imports Main "HOL-Library.AList"
begin

section \<open>The Variable class of the linear-program interface (variable.py)\<close>

text \<open>
  A shallow embedding of \<^verbatim>\<open>src/interfaces/lpsolver/variable.py\<close> (Python 2).
  A method of the class is a function from the object's state to a result and
  the state the call leaves behind; a raised exception is the \<open>Inl\<close> summand of
  the result, and the state returned with it is the one the object has at the
  moment of the raise (an exception does not undo earlier assignments).
  Methods that write to standard output also return the items they print, one
  string for each item of each \<^verbatim>\<open>print\<close> statement, in order.
\<close>

subsection \<open>Values\<close>

text \<open>
  The Python values that travel through the class untyped: grounding values,
  metadata, and the coefficients of a constraint (\<^verbatim>\<open>iff\<close> and
  \<^verbatim>\<open>implies\<close> pass the link name itself as a coefficient, so a coefficient
  list mixes strings and numbers).
\<close>

datatype pyval = PNone | PInt int | PStr string | PList "pyval list"

datatype py_error =
    KeyError string
  | IndexError
  | AttributeError string
  | PyException

text \<open>Dictionaries are association lists in insertion order; a key is
  replaced in place and a new key goes to the end.\<close>

type_synonym ('k, 'v) dict = "('k \<times> 'v) list"

text \<open>
  A Python \<^verbatim>\<open>set\<close> of indices is a duplicate-free list, the order of the list
  being the order in which the set is iterated. \<^verbatim>\<open>set([x])\<close> is \<open>[x]\<close>,
  \<^verbatim>\<open>s.add(x)\<close> is \<open>pyset_add\<close>, \<^verbatim>\<open>set(xs)\<close> is \<open>pyset_of\<close>. Python fixes
  no iteration order for a set; the functions below put a new element last.
  The lemmas on \<^verbatim>\<open>apply_offsets\<close> are stated for an arbitrary state, hence for
  any order the lists may be in.
\<close>

type_synonym pyset = "int list"

definition pyset_add :: "int \<Rightarrow> pyset \<Rightarrow> pyset" where
  "pyset_add x s = (if x \<in> set s then s else s @ [x])"

definition pyset_of :: "int list \<Rightarrow> pyset" where
  "pyset_of xs = fold pyset_add xs []"

subsection \<open>The Constraint collaborator\<close>

text \<open>
  Modelled from the spec: the class \<^verbatim>\<open>Constraint\<close> of the module
  \<^verbatim>\<open>constraint\<close>, which variable.py imports and which is not among the
  sources. The spec describes it as accepting an ordered list of term names, a
  parallel list of coefficients, a relational operator, a right-hand side and
  optional keyword metadata; the record holds exactly the arguments of the
  constructor call.
\<close>

record constraint =
  terms :: "string list"
  coeffs :: "pyval list"
  operator :: string
  rhs :: pyval
  kwargs :: "(string, pyval) dict"

definition Constraint ::
  "string list \<Rightarrow> pyval list \<Rightarrow> string \<Rightarrow> pyval \<Rightarrow> (string, pyval) dict \<Rightarrow> constraint" where
  "Constraint ts cs opr r kw =
     \<lparr>terms = ts, coeffs = cs, operator = opr, rhs = r, kwargs = kw\<rparr>"

subsection \<open>The object\<close>

text \<open>
  One field for each name in \<^verbatim>\<open>__slots__\<close>. The last field,
  \<open>upper_bound\<close>, is not a slot: it is the attribute \<^verbatim>\<open>has_flow_over\<close>
  assigns, and it is \<open>None\<close> as long as no assignment to it has succeeded.
\<close>

record variable =
  type :: string
  grounding :: "(string, pyval) dict"
  linked_idxs :: "(string, int list) dict"
  raw_linked_idxs :: "(string, pyset) dict"
  linked_type :: "(string, string) dict"
  constraints :: "constraint list"
  coeff :: pyval
  metadata :: pyval
  upper_bound :: "int option"

definition Variable_slots :: "string list" where
  "Variable_slots = [''type'', ''grounding'', ''linked_idxs'', ''raw_linked_idxs'',
                     ''linked_type'', ''constraints'', ''coeff'', ''metadata'']"

definition Variable_init :: "string \<Rightarrow> (string, pyval) dict \<Rightarrow> variable" where
  "Variable_init var_type kw =
     \<lparr>type = var_type, grounding = kw, linked_idxs = [], raw_linked_idxs = [],
      linked_type = [], constraints = [], coeff = PInt 0, metadata = PNone,
      upper_bound = None\<rparr>"

subsection \<open>Rendering of integers and index collections\<close>

definition digit_char :: "nat \<Rightarrow> char" where
  "digit_char d = ''0123456789'' ! d"

function str_nat :: "nat \<Rightarrow> string" where
  "str_nat n = (if n < 10 then [digit_char n]
                else str_nat (n div 10) @ [digit_char (n mod 10)])"
  by pat_completeness auto
termination
  by (relation "measure (\<lambda>n. n)") auto

declare str_nat.simps [simp del]

definition str_int :: "int \<Rightarrow> string" where
  "str_int i = (if i < 0 then CHR ''-'' # str_nat (nat (- i)) else str_nat (nat i))"

fun join_comma :: "string list \<Rightarrow> string" where
  "join_comma [] = []"
| "join_comma [s] = s"
| "join_comma (s # t # ss) = s @ '', '' @ join_comma (t # ss)"

text \<open>\<^verbatim>\<open>str\<close> of a set and of a list of machine-range integers, as Python 2
  prints them.\<close>

definition str_set :: "pyset \<Rightarrow> string" where
  "str_set s = ''set(['' @ join_comma (map str_int s) @ ''])''"

definition str_list :: "int list \<Rightarrow> string" where
  "str_list xs = ''['' @ join_comma (map str_int xs) @ '']''"

subsection \<open>Simple accessors and setters\<close>

definition is_type :: "string \<Rightarrow> variable \<Rightarrow> bool" where
  "is_type type_str v = (if type v = type_str then True else False)"

definition is_ungrounded :: "variable \<Rightarrow> bool" where
  "is_ungrounded v = (if length (grounding v) = 0 then True else False)"

definition add_grounding :: "(string, pyval) dict \<Rightarrow> variable \<Rightarrow> variable" where
  "add_grounding kw v =
     v\<lparr>grounding := fold (\<lambda>(k, x) g. AList.update k x g) kw (grounding v)\<rparr>"

definition set_coeff :: "pyval \<Rightarrow> variable \<Rightarrow> variable" where
  "set_coeff c v = v\<lparr>coeff := c\<rparr>"

definition set_metadata :: "pyval \<Rightarrow> variable \<Rightarrow> variable" where
  "set_metadata m v = v\<lparr>metadata := m\<rparr>"

definition set_idx :: "int \<Rightarrow> variable \<Rightarrow> variable" where
  "set_idx i v =
     v\<lparr>raw_linked_idxs := AList.update ''own_idx'' [i] (raw_linked_idxs v),
       linked_type := AList.update ''own_idx'' (type v) (linked_type v)\<rparr>"

definition idx :: "variable \<Rightarrow> py_error + int" where
  "idx v =
     (case map_of (linked_idxs v) ''own_idx'' of
        None \<Rightarrow> Inl (KeyError ''own_idx'')
      | Some [] \<Rightarrow> Inl IndexError
      | Some (i # _) \<Rightarrow> Inr i)"

definition raw_idx :: "variable \<Rightarrow> py_error + int" where
  "raw_idx v =
     (case map_of (raw_linked_idxs v) ''own_idx'' of
        None \<Rightarrow> Inl (KeyError ''own_idx'')
      | Some [] \<Rightarrow> Inl IndexError
      | Some (i # _) \<Rightarrow> Inr i)"

definition has_link :: "string \<Rightarrow> variable \<Rightarrow> bool" where
  "has_link name v = (name \<in> fst ` set (linked_type v))"

definition get_unique_id :: "variable \<Rightarrow> py_error + string" where
  "get_unique_id v =
     (case map_of (raw_linked_idxs v) ''own_idx'' of
        None \<Rightarrow> Inl (KeyError ''own_idx'')
      | Some [] \<Rightarrow> Inl IndexError
      | Some (i # _) \<Rightarrow> Inr (type v @ str_int i))"

subsection \<open>readable_links\<close>

text \<open>One line for each name of \<^verbatim>\<open>raw_linked_idxs\<close>; the lookup of a name
  missing from \<^verbatim>\<open>linked_type\<close> (or, when not raw, from
  \<^verbatim>\<open>linked_idxs\<close>) raises KeyError.\<close>

fun readable_links_loop ::
  "bool \<Rightarrow> variable \<Rightarrow> (string, pyset) dict \<Rightarrow> string \<Rightarrow> py_error + string" where
  "readable_links_loop raw v [] acc = Inr acc"
| "readable_links_loop raw v ((name, s) # rest) acc =
     (case map_of (linked_type v) name of
        None \<Rightarrow> Inl (KeyError name)
      | Some ty \<Rightarrow>
          (if raw then
             readable_links_loop raw v rest
               (acc @ name @ '' '' @ ty @ '' '' @ str_set s @ [CHR 0x0A])
           else
             (case map_of (linked_idxs v) name of
                None \<Rightarrow> Inl (KeyError name)
              | Some xs \<Rightarrow>
                  readable_links_loop raw v rest
                    (acc @ name @ '' '' @ ty @ '' '' @ str_list xs @ [CHR 0x0A]))))"

definition readable_links :: "bool \<Rightarrow> variable \<Rightarrow> py_error + string" where
  "readable_links raw v = readable_links_loop raw v (raw_linked_idxs v) []"

subsection \<open>Links\<close>

text \<open>
  The block that opens both \<^verbatim>\<open>add_link\<close> and \<^verbatim>\<open>add_links\<close>: a new name
  is bound to the type of the linked variable; a name bound to another type
  prints the error line and the raw links and then raises a bare
  \<^verbatim>\<open>Exception\<close>. The call of \<^verbatim>\<open>readable_links\<close> comes before the raise, so
  an exception of its own would replace it.
\<close>

definition link_conflict_items :: "variable \<Rightarrow> string \<Rightarrow> string \<Rightarrow> string \<Rightarrow> string list" where
  "link_conflict_items v name bound ty =
     [''ERROR: link name'', name, ''in'', type v, ''variable'',
      ''is in use for variables of type'', bound,
      ''and can't be assigned to a'', ty, ''variable.'']"

definition bind_link_type ::
  "string \<Rightarrow> string \<Rightarrow> variable \<Rightarrow> (py_error + unit) \<times> variable \<times> string list" where
  "bind_link_type name ty v =
     (case map_of (linked_type v) name of
        None \<Rightarrow> (Inr (), v\<lparr>linked_type := AList.update name ty (linked_type v)\<rparr>, [])
      | Some bound \<Rightarrow>
          (if bound \<noteq> ty then
             (case readable_links True v of
                Inl e \<Rightarrow> (Inl e, v, link_conflict_items v name bound ty)
              | Inr s \<Rightarrow> (Inl PyException, v, link_conflict_items v name bound ty @ [s]))
           else (Inr (), v, [])))"

definition add_link ::
  "string \<Rightarrow> variable \<Rightarrow> variable \<Rightarrow> (py_error + unit) \<times> variable \<times> string list" where
  "add_link name var v =
     (case bind_link_type name (type var) v of
        (Inl e, v', out) \<Rightarrow> (Inl e, v', out)
      | (Inr _, v', out) \<Rightarrow>
          (case map_of (raw_linked_idxs v') name of
             None \<Rightarrow>
               (case raw_idx var of
                  Inl e \<Rightarrow> (Inl e, v', out)
                | Inr i \<Rightarrow>
                    (Inr (),
                     v'\<lparr>raw_linked_idxs := AList.update name [i] (raw_linked_idxs v')\<rparr>,
                     out))
           | Some s \<Rightarrow>
               (case raw_idx var of
                  Inl e \<Rightarrow> (Inl e, v', out)
                | Inr i \<Rightarrow>
                    (Inr (),
                     v'\<lparr>raw_linked_idxs :=
                          AList.update name (pyset_add i s) (raw_linked_idxs v')\<rparr>,
                     out))))"

text \<open>The list comprehension of \<^verbatim>\<open>add_links\<close>: every raw index is computed
  before the set is built, so an exception leaves no set behind.\<close>

fun raw_idxs :: "variable list \<Rightarrow> py_error + int list" where
  "raw_idxs [] = Inr []"
| "raw_idxs (var # rest) =
     (case raw_idx var of
        Inl e \<Rightarrow> Inl e
      | Inr i \<Rightarrow> (case raw_idxs rest of Inl e \<Rightarrow> Inl e | Inr js \<Rightarrow> Inr (i # js)))"

text \<open>\<^verbatim>\<open>set.update\<close> over the generator of \<^verbatim>\<open>add_links\<close>: the indices are
  added one by one to the set already stored, and an exception stops the loop
  with the earlier ones added.\<close>

fun pyset_update_raw :: "variable list \<Rightarrow> pyset \<Rightarrow> (py_error + unit) \<times> pyset" where
  "pyset_update_raw [] s = (Inr (), s)"
| "pyset_update_raw (var # rest) s =
     (case raw_idx var of
        Inl e \<Rightarrow> (Inl e, s)
      | Inr i \<Rightarrow> pyset_update_raw rest (pyset_add i s))"

definition add_links ::
  "string \<Rightarrow> variable list \<Rightarrow> variable \<Rightarrow> (py_error + unit) \<times> variable \<times> string list" where
  "add_links name vars v =
     (case vars of
        [] \<Rightarrow> (Inl IndexError, v, [])
      | var0 # _ \<Rightarrow>
          (case bind_link_type name (type var0) v of
             (Inl e, v', out) \<Rightarrow> (Inl e, v', out)
           | (Inr _, v', out) \<Rightarrow>
               (case map_of (raw_linked_idxs v') name of
                  None \<Rightarrow>
                    (case raw_idxs vars of
                       Inl e \<Rightarrow> (Inl e, v', out)
                     | Inr js \<Rightarrow>
                         (Inr (),
                          v'\<lparr>raw_linked_idxs :=
                               AList.update name (pyset_of js) (raw_linked_idxs v')\<rparr>,
                          out))
                | Some s \<Rightarrow>
                    (case pyset_update_raw vars s of
                       (r, s') \<Rightarrow>
                         (r,
                          v'\<lparr>raw_linked_idxs :=
                               AList.update name s' (raw_linked_idxs v')\<rparr>,
                          out)))))"

subsection \<open>apply_offsets\<close>

text \<open>
  The loop over the names of \<^verbatim>\<open>raw_linked_idxs\<close>. A bound type missing from
  the offsets prints two statements (the type, then the raw links) and the
  loop goes on to the next name; there is no raise in that branch.
\<close>

fun apply_offsets_loop ::
  "(string \<rightharpoonup> int) \<Rightarrow> (string, pyset) dict \<Rightarrow> variable \<Rightarrow> string list
     \<Rightarrow> (py_error + unit) \<times> variable \<times> string list" where
  "apply_offsets_loop offsets [] v out = (Inr (), v, out)"
| "apply_offsets_loop offsets ((name, s) # rest) v out =
     (case map_of (linked_type v) name of
        None \<Rightarrow> (Inl (KeyError name), v, out)
      | Some var_type \<Rightarrow>
          (case offsets var_type of
             None \<Rightarrow>
               (case readable_links True v of
                  Inl e \<Rightarrow>
                    (Inl e, v, out @ [''Unknown variable type'', var_type, ''in variable links''])
                | Inr txt \<Rightarrow>
                    apply_offsets_loop offsets rest v
                      (out @ [''Unknown variable type'', var_type, ''in variable links'', txt]))
           | Some off \<Rightarrow>
               apply_offsets_loop offsets rest
                 (v\<lparr>linked_idxs :=
                      AList.update name (map (\<lambda>i. i + off) s) (linked_idxs v)\<rparr>)
                 out))"

definition apply_offsets ::
  "(string \<rightharpoonup> int) \<Rightarrow> variable \<Rightarrow> (py_error + unit) \<times> variable \<times> string list" where
  "apply_offsets offsets v = apply_offsets_loop offsets (raw_linked_idxs v) v []"

subsection \<open>retrieve_grounding\<close>

fun retrieve_grounding_loop ::
  "variable \<Rightarrow> string list \<Rightarrow> pyval list \<Rightarrow> string list \<Rightarrow> pyval list \<times> string list" where
  "retrieve_grounding_loop v [] vals out = (vals, out)"
| "retrieve_grounding_loop v (name # rest) vals out =
     (case map_of (grounding v) name of
        None \<Rightarrow>
          retrieve_grounding_loop v rest vals
            (out @ [''ERROR: unknown grounding attribute'', name, ''for'', type v, ''variable''])
      | Some x \<Rightarrow> retrieve_grounding_loop v rest (vals @ [x]) out)"

text \<open>The result is the raised exception, if any, or the returned value; the
  second component is what the call printed.\<close>

definition retrieve_grounding :: "string list \<Rightarrow> variable \<Rightarrow> (py_error + pyval) \<times> string list" where
  "retrieve_grounding args v =
     (case retrieve_grounding_loop v args [] [] of
        (vals, out) \<Rightarrow>
          (if length vals = 1 then (Inr (vals ! 0), out) else (Inr (PList vals), out)))"

subsection \<open>Constraint templates\<close>

text \<open>Each template takes its positional arguments already unpacked, and the
  keyword arguments it hands on to the constraint.\<close>

definition general ::
  "string list \<Rightarrow> pyval list \<Rightarrow> string \<Rightarrow> pyval \<Rightarrow> (string, pyval) dict \<Rightarrow> variable \<Rightarrow> variable" where
  "general ts cs opr r kw v = v\<lparr>constraints := constraints v @ [Constraint ts cs opr r kw]\<rparr>"

definition iff :: "string \<Rightarrow> (string, pyval) dict \<Rightarrow> variable \<Rightarrow> variable" where
  "iff link kw v =
     v\<lparr>constraints := constraints v @
        [Constraint [''own_idx'', link] [PStr link, PInt (- 1)] ''='' (PInt 0) kw]\<rparr>"

definition iff_exactly :: "int \<Rightarrow> string \<Rightarrow> (string, pyval) dict \<Rightarrow> variable \<Rightarrow> variable" where
  "iff_exactly N link kw v =
     v\<lparr>constraints := constraints v @
        [Constraint [''own_idx'', link] [PInt N, PInt (- 1)] ''='' (PInt 0) kw]\<rparr>"

definition implies :: "string \<Rightarrow> (string, pyval) dict \<Rightarrow> variable \<Rightarrow> variable" where
  "implies link kw v =
     v\<lparr>constraints := constraints v @
        [Constraint [''own_idx'', link] [PStr link, PInt (- 1)] ''<='' (PInt 0) kw]\<rparr>"

definition implies_at_least :: "int \<Rightarrow> string \<Rightarrow> (string, pyval) dict \<Rightarrow> variable \<Rightarrow> variable" where
  "implies_at_least N link kw v =
     v\<lparr>constraints := constraints v @
        [Constraint [''own_idx'', link] [PInt N, PInt (- 1)] ''<='' (PInt 0) kw]\<rparr>"

text \<open>An assignment to an attribute of an object whose class declares
  \<^verbatim>\<open>__slots__\<close> and has no \<^verbatim>\<open>__dict__\<close> succeeds only for a declared slot.\<close>

definition set_upper_bound :: "int \<Rightarrow> variable \<Rightarrow> (py_error + unit) \<times> variable" where
  "set_upper_bound b v =
     (if ''upper_bound'' \<in> set Variable_slots
      then (Inr (), v\<lparr>upper_bound := Some b\<rparr>)
      else (Inl (AttributeError ''upper_bound''), v))"

definition has_flow_over ::
  "string \<Rightarrow> int \<Rightarrow> (string, pyval) dict \<Rightarrow> variable \<Rightarrow> (py_error + unit) \<times> variable" where
  "has_flow_over link max_flow kw v =
     set_upper_bound max_flow
       (v\<lparr>constraints := constraints v @
          [Constraint [''own_idx'', link] [PInt 1, PInt (- max_flow)] ''<='' (PInt 0) kw]\<rparr>)"

definition consumes_flow_between ::
  "string \<Rightarrow> string \<Rightarrow> (string, pyval) dict \<Rightarrow> variable \<Rightarrow> variable" where
  "consumes_flow_between incoming_link outgoing_link kw v =
     v\<lparr>constraints := constraints v @
        [Constraint [incoming_link, outgoing_link] [PInt 1, PInt (- 1)] ''='' (PInt 1) kw]\<rparr>"

definition requires_flow_between ::
  "string \<Rightarrow> string \<Rightarrow> (string, pyval) dict \<Rightarrow> variable \<Rightarrow> variable" where
  "requires_flow_between incoming_link outgoing_link kw v =
     v\<lparr>constraints := constraints v @
        [Constraint [incoming_link, outgoing_link, ''own_idx'']
           [PInt 1, PInt (- 1), PInt (- 1)] ''='' (PInt 0) kw]\<rparr>"

subsection \<open>Histories of calls\<close>

text \<open>
  The calls that change an object, as data, and the state a call leaves
  (whether it returned or raised). \<^verbatim>\<open>add_constraint\<close> looks the template up
  by its name and calls it, so it is the call of that template. \<open>run\<close>
  performs a list of calls in order;
  the objects a model builder can hold are those of the form
  \<open>run cs (Variable_init t kw)\<close>.
\<close>

datatype call =
    AddGrounding "(string, pyval) dict"
  | SetCoeff pyval
  | SetMetadata pyval
  | SetIdx int
  | AddLink string variable
  | AddLinks string "variable list"
  | ApplyOffsets "string \<rightharpoonup> int"
  | General "string list" "pyval list" string pyval "(string, pyval) dict"
  | Iff string "(string, pyval) dict"
  | IffExactly int string "(string, pyval) dict"
  | Implies string "(string, pyval) dict"
  | ImpliesAtLeast int string "(string, pyval) dict"
  | HasFlowOver string int "(string, pyval) dict"
  | ConsumesFlowBetween string string "(string, pyval) dict"
  | RequiresFlowBetween string string "(string, pyval) dict"

fun exec :: "call \<Rightarrow> variable \<Rightarrow> variable" where
  "exec (AddGrounding kw) v = add_grounding kw v"
| "exec (SetCoeff c) v = set_coeff c v"
| "exec (SetMetadata m) v = set_metadata m v"
| "exec (SetIdx i) v = set_idx i v"
| "exec (AddLink name var) v = fst (snd (add_link name var v))"
| "exec (AddLinks name vars) v = fst (snd (add_links name vars v))"
| "exec (ApplyOffsets offsets) v = fst (snd (apply_offsets offsets v))"
| "exec (General ts cs opr r kw) v = general ts cs opr r kw v"
| "exec (Iff link kw) v = iff link kw v"
| "exec (IffExactly N link kw) v = iff_exactly N link kw v"
| "exec (Implies link kw) v = implies link kw v"
| "exec (ImpliesAtLeast N link kw) v = implies_at_least N link kw v"
| "exec (HasFlowOver link max_flow kw) v = snd (has_flow_over link max_flow kw v)"
| "exec (ConsumesFlowBetween a b kw) v = consumes_flow_between a b kw v"
| "exec (RequiresFlowBetween a b kw) v = requires_flow_between a b kw v"

fun run :: "call list \<Rightarrow> variable \<Rightarrow> variable" where
  "run [] v = v"
| "run (c # cs) v = run cs (exec c v)"

subsection \<open>Invariants of the link registry\<close>

text \<open>
  \<open>wf\<close>: the names of \<^verbatim>\<open>raw_linked_idxs\<close> are distinct (it is a dictionary)
  and each of them is bound to a type in \<^verbatim>\<open>linked_type\<close>.
  \<open>own_assigned\<close>: \<^verbatim>\<open>raw_idx()\<close> returns and the reserved name
  \<^verbatim>\<open>own_idx\<close> is bound to the variable's own type, which is what
  \<^verbatim>\<open>set_idx\<close> establishes.
\<close>

definition wf :: "variable \<Rightarrow> bool" where
  "wf v \<longleftrightarrow> distinct (map fst (raw_linked_idxs v)) \<and>
            fst ` set (raw_linked_idxs v) \<subseteq> fst ` set (linked_type v)"

definition own_assigned :: "variable \<Rightarrow> bool" where
  "own_assigned v \<longleftrightarrow> (\<exists>i. raw_idx v = Inr i) \<and>
                      map_of (linked_type v) ''own_idx'' = Some (type v)"

text \<open>The items \<^verbatim>\<open>retrieve_grounding\<close> prints for one missing name.\<close>

definition unknown_grounding_items :: "variable \<Rightarrow> string \<Rightarrow> string list" where
  "unknown_grounding_items v name =
     [''ERROR: unknown grounding attribute'', name, ''for'', type v, ''variable'']"

text \<open>
  \<open>link_step name v v2\<close>: what \<^verbatim>\<open>add_link\<close> and \<^verbatim>\<open>add_links\<close> can do to an
  object, whatever their outcome. The name may get bound when it was not, and
  the set of the name may be replaced by one that starts with the elements it
  had; nothing else changes.
  \<open>raw_sets_ok\<close>: every list standing for a set is duplicate-free, so its
  length is the size of the set.
\<close>

definition link_step :: "string \<Rightarrow> variable \<Rightarrow> variable \<Rightarrow> bool" where
  "link_step name v v2 \<longleftrightarrow>
     (\<exists>v'. (v' = v \<or>
             (map_of (linked_type v) name = None \<and>
              (\<exists>ty. v' = v\<lparr>linked_type := AList.update name ty (linked_type v)\<rparr>))) \<and>
           (v2 = v' \<or>
            (\<exists>s'. v2 = v'\<lparr>raw_linked_idxs := AList.update name s' (raw_linked_idxs v')\<rparr> \<and>
                  (\<forall>s. map_of (raw_linked_idxs v) name = Some s \<longrightarrow> (\<exists>extra. s' = s @ extra)))))"

definition raw_sets_ok :: "variable \<Rightarrow> bool" where
  "raw_sets_ok v \<longleftrightarrow> list_all (\<lambda>p. distinct (snd p)) (raw_linked_idxs v)"

section \<open>The invariants hold along every history\<close>

lemma map_of_None_iff: "map_of al k = None \<longleftrightarrow> k \<notin> fst ` set al"
  by (simp add: map_of_eq_None_iff)

lemma readable_links_loop_raw:
  "fst ` set al \<subseteq> fst ` set (linked_type v) \<Longrightarrow> \<exists>txt. readable_links_loop True v al acc = Inr txt"
proof (induction al arbitrary: acc)
  case Nil
  then show ?case by simp
next
  case (Cons p al)
  obtain name s where p: "p = (name, s)" by (cases p)
  from Cons.prems p have "name \<in> fst ` set (linked_type v)" by simp
  then obtain ty where "map_of (linked_type v) name = Some ty"
    by (metis map_of_None_iff not_Some_eq)
  moreover from Cons.prems have "fst ` set al \<subseteq> fst ` set (linked_type v)" by simp
  ultimately show ?case using Cons.IH p by simp
qed

lemma readable_links_raw: "wf v \<Longrightarrow> \<exists>txt. readable_links True v = Inr txt"
  unfolding readable_links_def wf_def by (simp add: readable_links_loop_raw)

lemma readable_links_loop_linked_idxs [simp]:
  "readable_links_loop True (v\<lparr>linked_idxs := x\<rparr>) al acc = readable_links_loop True v al acc"
  by (induction al arbitrary: acc) (auto split: option.splits)

lemma readable_links_linked_idxs [simp]:
  "readable_links True (v\<lparr>linked_idxs := x\<rparr>) = readable_links True v"
  by (simp add: readable_links_def)

lemma apply_offsets_loop_frame:
  "apply_offsets_loop offs al v out = (r, v', out') \<Longrightarrow>
     raw_linked_idxs v' = raw_linked_idxs v \<and> linked_type v' = linked_type v \<and> type v' = type v
     \<and> constraints v' = constraints v \<and> grounding v' = grounding v"
  by (induction offs al v out rule: apply_offsets_loop.induct)
     (auto split: option.splits sum.splits)

lemma apply_offsets_loop_ok:
  "fst ` set al \<subseteq> fst ` set (linked_type v) \<Longrightarrow>
   fst ` set (raw_linked_idxs v) \<subseteq> fst ` set (linked_type v) \<Longrightarrow>
   fst (apply_offsets_loop offs al v out) = Inr ()"
proof (induction offs al v out rule: apply_offsets_loop.induct)
  case (1 offsets v out)
  then show ?case by simp
next
  case (2 offsets name s rest v out)
  from "2.prems" obtain ty where ty: "map_of (linked_type v) name = Some ty"
    by (metis list.set_intros(1) fst_conv image_eqI map_of_None_iff not_Some_eq subsetD)
  obtain ls where ls: "readable_links True v = Inr ls"
    using "2.prems"(2) readable_links_loop_raw unfolding readable_links_def by blast
  show ?case
  proof (cases "offsets ty")
    case None
    then show ?thesis using ty ls 2 by simp
  next
    case (Some off)
    then show ?thesis using ty 2 by simp
  qed
qed


lemma wf_init: "wf (Variable_init t kw)"
  by (simp add: wf_def Variable_init_def)

lemma wf_update_raw:
  "wf v \<Longrightarrow> name \<in> fst ` set (linked_type v) \<Longrightarrow>
   wf (v\<lparr>raw_linked_idxs := AList.update name s (raw_linked_idxs v)\<rparr>)"
  by (auto simp: wf_def distinct_update dom_update)

lemma wf_update_type:
  "wf v \<Longrightarrow> wf (v\<lparr>linked_type := AList.update name ty (linked_type v)\<rparr>)"
  by (auto simp: wf_def dom_update)

lemma bind_link_type_cases:
  "bind_link_type name ty v = (r, v', out) \<Longrightarrow>
     v' = v \<or> (map_of (linked_type v) name = None \<and>
               v' = v\<lparr>linked_type := AList.update name ty (linked_type v)\<rparr>)"
  by (auto simp: bind_link_type_def split: option.splits if_splits sum.splits)

lemma bind_link_type_bound:
  "bind_link_type name ty v = (Inr u, v', out) \<Longrightarrow> map_of (linked_type v') name = Some ty"
  by (auto simp: bind_link_type_def update_conv' split: option.splits if_splits sum.splits)

lemma wf_bind_link_type: "wf v \<Longrightarrow> bind_link_type name ty v = (r, v', out) \<Longrightarrow> wf v'"
  using bind_link_type_cases wf_update_type by blast

lemma map_of_Some_key: "map_of al k = Some x \<Longrightarrow> k \<in> fst ` set al"
  by (metis map_of_None_iff option.distinct(1))

lemma wf_add_link: "wf v \<Longrightarrow> wf (fst (snd (add_link name var v)))"
proof -
  assume w: "wf v"
  obtain r v' out where b: "bind_link_type name (type var) v = (r, v', out)"
    by (cases "bind_link_type name (type var) v") auto
  have w': "wf v'" using w b by (rule wf_bind_link_type)
  show ?thesis
  proof (cases r)
    case (Inl e)
    then show ?thesis using b w' by (simp add: add_link_def)
  next
    case (Inr u)
    then have "map_of (linked_type v') name = Some (type var)"
      using b by (simp add: bind_link_type_bound)
    then have "name \<in> fst ` set (linked_type v')"
      by (rule map_of_Some_key)
    then have "\<And>s. wf (v'\<lparr>raw_linked_idxs := AList.update name s (raw_linked_idxs v')\<rparr>)"
      using w' wf_update_raw by blast
    then show ?thesis using b Inr w'
      by (auto simp: add_link_def split: option.splits sum.splits)
  qed
qed

lemma wf_add_links: "wf v \<Longrightarrow> wf (fst (snd (add_links name vars v)))"
proof (cases vars)
  case Nil
  assume "wf v"
  then show ?thesis using Nil by (simp add: add_links_def)
next
  case (Cons var0 rest)
  assume w: "wf v"
  obtain r v' out where b: "bind_link_type name (type var0) v = (r, v', out)"
    by (cases "bind_link_type name (type var0) v") auto
  have w': "wf v'" using w b by (rule wf_bind_link_type)
  show ?thesis
  proof (cases r)
    case (Inl e)
    then show ?thesis using b w' Cons by (simp add: add_links_def)
  next
    case (Inr u)
    then have "map_of (linked_type v') name = Some (type var0)"
      using b by (simp add: bind_link_type_bound)
    then have "name \<in> fst ` set (linked_type v')"
      by (rule map_of_Some_key)
    then have "\<And>s. wf (v'\<lparr>raw_linked_idxs := AList.update name s (raw_linked_idxs v')\<rparr>)"
      using w' wf_update_raw by blast
    then show ?thesis using b Inr w' Cons
      by (auto simp: add_links_def split: option.splits sum.splits prod.splits)
  qed
qed

lemma wf_apply_offsets: "wf v \<Longrightarrow> wf (fst (snd (apply_offsets offsets v)))"
proof -
  assume w: "wf v"
  obtain r v' out where a: "apply_offsets offsets v = (r, v', out)"
    by (cases "apply_offsets offsets v") auto
  then have "raw_linked_idxs v' = raw_linked_idxs v \<and> linked_type v' = linked_type v"
    unfolding apply_offsets_def using apply_offsets_loop_frame by blast
  then show ?thesis using w a by (simp add: wf_def)
qed

lemma wf_exec: "wf v \<Longrightarrow> wf (exec c v)"
proof (cases c)
  case (SetIdx i)
  assume "wf v"
  then show ?thesis using SetIdx
    by (auto simp: wf_def set_idx_def distinct_update dom_update)
next
  case (AddLink name var)
  assume "wf v"
  then show ?thesis using AddLink by (simp add: wf_add_link)
next
  case (AddLinks name vars)
  assume "wf v"
  then show ?thesis using AddLinks by (simp add: wf_add_links)
next
  case (ApplyOffsets offsets)
  assume "wf v"
  then show ?thesis using ApplyOffsets by (simp add: wf_apply_offsets)
qed (simp_all add: wf_def add_grounding_def set_coeff_def set_metadata_def general_def
       iff_def iff_exactly_def implies_def implies_at_least_def has_flow_over_def
       set_upper_bound_def consumes_flow_between_def requires_flow_between_def)

lemma wf_run: "wf v \<Longrightarrow> wf (run cs v)"
  by (induction cs arbitrary: v) (simp_all add: wf_exec)

lemma pyset_add_extends: "\<exists>extra. pyset_add i s = s @ extra"
  by (simp add: pyset_add_def)

lemma pyset_update_raw_extends:
  "pyset_update_raw vars s = (r, s') \<Longrightarrow> \<exists>extra. s' = s @ extra"
proof (induction vars arbitrary: s)
  case Nil
  then show ?case by simp
next
  case (Cons var rest)
  show ?case
  proof (cases "raw_idx var")
    case (Inl e)
    then show ?thesis using Cons.prems by simp
  next
    case (Inr i)
    then have "pyset_update_raw rest (pyset_add i s) = (r, s')" using Cons.prems by simp
    then obtain extra where "s' = pyset_add i s @ extra" using Cons.IH by blast
    then show ?thesis using pyset_add_extends [of i s] by auto
  qed
qed

lemma bind_link_type_raw:
  "bind_link_type name ty v = (r, v', out) \<Longrightarrow> raw_linked_idxs v' = raw_linked_idxs v"
  using bind_link_type_cases by fastforce

lemma link_step_add_link: "link_step name v (fst (snd (add_link name var v)))"
proof -
  obtain r v' out where b: "bind_link_type name (type var) v = (r, v', out)"
    by (cases "bind_link_type name (type var) v") auto
  have c: "v' = v \<or> (map_of (linked_type v) name = None \<and>
             (\<exists>ty. v' = v\<lparr>linked_type := AList.update name ty (linked_type v)\<rparr>))"
    using bind_link_type_cases [OF b] by blast
  have raw: "raw_linked_idxs v' = raw_linked_idxs v" using b by (rule bind_link_type_raw)
  let ?v2 = "fst (snd (add_link name var v))"
  have "?v2 = v' \<or>
        (\<exists>s'. ?v2 = v'\<lparr>raw_linked_idxs := AList.update name s' (raw_linked_idxs v')\<rparr> \<and>
              (\<forall>s. map_of (raw_linked_idxs v) name = Some s \<longrightarrow> (\<exists>extra. s' = s @ extra)))"
    using b raw pyset_add_extends
    by (auto simp: add_link_def split: sum.splits option.splits)
  then show ?thesis unfolding link_step_def using c by blast
qed

lemma link_step_add_links: "link_step name v (fst (snd (add_links name vars v)))"
proof (cases vars)
  case Nil
  then show ?thesis by (auto simp: add_links_def link_step_def)
next
  case (Cons var0 rest)
  obtain r v' out where b: "bind_link_type name (type var0) v = (r, v', out)"
    by (cases "bind_link_type name (type var0) v") auto
  have c: "v' = v \<or> (map_of (linked_type v) name = None \<and>
             (\<exists>ty. v' = v\<lparr>linked_type := AList.update name ty (linked_type v)\<rparr>))"
    using bind_link_type_cases [OF b] by blast
  have raw: "raw_linked_idxs v' = raw_linked_idxs v" using b by (rule bind_link_type_raw)
  let ?v2 = "fst (snd (add_links name vars v))"
  have "?v2 = v' \<or>
        (\<exists>s'. ?v2 = v'\<lparr>raw_linked_idxs := AList.update name s' (raw_linked_idxs v')\<rparr> \<and>
              (\<forall>s. map_of (raw_linked_idxs v) name = Some s \<longrightarrow> (\<exists>extra. s' = s @ extra)))"
  proof (cases r)
    case (Inl e)
    then show ?thesis using b Cons by (simp add: add_links_def)
  next
    case (Inr u)
    show ?thesis
    proof (cases "map_of (raw_linked_idxs v) name")
      case None
      then show ?thesis using b Inr Cons raw
        by (auto simp: add_links_def split: sum.splits)
    next
      case (Some s)
      obtain r2 s' where p: "pyset_update_raw vars s = (r2, s')"
        by (cases "pyset_update_raw vars s") auto
      then obtain extra where "s' = s @ extra" using pyset_update_raw_extends by blast
      then show ?thesis using b Inr Cons raw Some p
        by (auto simp: add_links_def)
    qed
  qed
  then show ?thesis unfolding link_step_def using c by blast
qed

lemma own_assigned_set_idx: "own_assigned (set_idx i v)"
  by (simp add: own_assigned_def set_idx_def raw_idx_def update_conv')

lemma raw_idx_Inr_iff:
  "raw_idx v = Inr i \<longleftrightarrow> (\<exists>s. map_of (raw_linked_idxs v) ''own_idx'' = Some (i # s))"
  by (auto simp: raw_idx_def split: option.splits list.splits)

lemma own_assigned_link_step:
  assumes "own_assigned v" and "link_step name v v2"
  shows "own_assigned v2 \<and> raw_idx v2 = raw_idx v \<and> type v2 = type v"
proof -
  from assms(1) obtain i s where
    own: "map_of (raw_linked_idxs v) ''own_idx'' = Some (i # s)" and
    ty: "map_of (linked_type v) ''own_idx'' = Some (type v)"
    by (auto simp: own_assigned_def raw_idx_Inr_iff)
  from assms(2) obtain v' where
    v': "v' = v \<or> (map_of (linked_type v) name = None \<and>
             (\<exists>ty. v' = v\<lparr>linked_type := AList.update name ty (linked_type v)\<rparr>))" and
    v2: "v2 = v' \<or>
            (\<exists>s'. v2 = v'\<lparr>raw_linked_idxs := AList.update name s' (raw_linked_idxs v')\<rparr> \<and>
                  (\<forall>s. map_of (raw_linked_idxs v) name = Some s \<longrightarrow> (\<exists>extra. s' = s @ extra)))"
    unfolding link_step_def by blast
  have a: "map_of (raw_linked_idxs v') ''own_idx'' = Some (i # s) \<and>
           map_of (linked_type v') ''own_idx'' = Some (type v') \<and> type v' = type v"
    using v' own ty by (auto simp: update_conv')
  have "\<exists>s2. map_of (raw_linked_idxs v2) ''own_idx'' = Some (i # s2)"
    using v2 v' a own by (auto simp: update_conv')
  moreover have "map_of (linked_type v2) ''own_idx'' = Some (type v2) \<and> type v2 = type v"
    using v2 a by auto
  ultimately show ?thesis using own
    by (auto simp: own_assigned_def raw_idx_def)
qed

lemma apply_offsets_frame:
  "raw_linked_idxs (fst (snd (apply_offsets offsets v))) = raw_linked_idxs v \<and>
   linked_type (fst (snd (apply_offsets offsets v))) = linked_type v \<and>
   type (fst (snd (apply_offsets offsets v))) = type v"
proof -
  obtain r v' out where a: "apply_offsets offsets v = (r, v', out)"
    by (cases "apply_offsets offsets v") auto
  then show ?thesis unfolding apply_offsets_def using apply_offsets_loop_frame by fastforce
qed

lemma own_assigned_exec: "own_assigned v \<Longrightarrow> own_assigned (exec c v) \<and> type (exec c v) = type v"
proof (cases c)
  case (SetIdx i)
  then show ?thesis by (simp add: own_assigned_set_idx) (simp add: set_idx_def)
next
  case (AddLink name var)
  assume "own_assigned v"
  then show ?thesis
    using AddLink own_assigned_link_step [OF _ link_step_add_link, of v name var] by simp
next
  case (AddLinks name vars)
  assume "own_assigned v"
  then show ?thesis
    using AddLinks own_assigned_link_step [OF _ link_step_add_links, of v name vars] by simp
next
  case (ApplyOffsets offsets)
  assume "own_assigned v"
  then show ?thesis using ApplyOffsets apply_offsets_frame [of offsets v]
    by (simp add: own_assigned_def raw_idx_def)
qed (simp_all add: own_assigned_def raw_idx_def add_grounding_def set_coeff_def
       set_metadata_def general_def iff_def iff_exactly_def implies_def implies_at_least_def
       has_flow_over_def set_upper_bound_def consumes_flow_between_def
       requires_flow_between_def)

lemma own_assigned_run: "own_assigned v \<Longrightarrow> own_assigned (run cs v) \<and> type (run cs v) = type v"
proof (induction cs arbitrary: v)
  case Nil
  then show ?case by simp
next
  case (Cons c cs)
  then show ?case using own_assigned_exec [of v c] by simp
qed

lemma apply_offsets_loop_other:
  "name \<notin> fst ` set al \<Longrightarrow> apply_offsets_loop offs al v out = (r, v', out') \<Longrightarrow>
   map_of (linked_idxs v') name = map_of (linked_idxs v) name"
proof (induction offs al v out rule: apply_offsets_loop.induct)
  case (1 offsets v out)
  then show ?case by simp
next
  case (2 offsets n s rest v out)
  then show ?case
    by (auto simp: update_conv' split: option.splits sum.splits)
qed

lemma apply_offsets_loop_out:
  "apply_offsets_loop offs al v out = (r, v', out') \<Longrightarrow> \<exists>post. out' = out @ post"
proof (induction offs al v out rule: apply_offsets_loop.induct)
  case (1 offsets v out)
  then show ?case by simp
next
  case (2 offsets n s rest v out)
  then show ?case
    by (fastforce split: option.splits sum.splits)
qed

lemma apply_offsets_loop_value:
  "distinct (map fst al) \<Longrightarrow> map_of al name = Some s \<Longrightarrow>
   map_of (linked_type v) name = Some ty \<Longrightarrow> offs ty = Some off \<Longrightarrow>
   apply_offsets_loop offs al v out = (Inr u, v', out') \<Longrightarrow>
   map_of (linked_idxs v') name = Some (map (\<lambda>i. i + off) s)"
proof (induction offs al v out rule: apply_offsets_loop.induct)
  case (1 offsets v out)
  then show ?case by simp
next
  case (2 offsets n s0 rest v out)
  show ?case
  proof (cases "n = name")
    case True
    then have s0: "s0 = s" using "2.prems"(2) by simp
    have notin: "name \<notin> fst ` set rest" using "2.prems"(1) True by simp
    let ?v1 = "v\<lparr>linked_idxs := AList.update name (map (\<lambda>i. i + off) s) (linked_idxs v)\<rparr>"
    have "apply_offsets_loop offsets rest ?v1 out = (Inr u, v', out')"
      using "2.prems" True s0 by simp
    from apply_offsets_loop_other [OF notin this]
    show ?thesis by (simp add: update_conv')
  next
    case False
    then have m: "map_of rest name = Some s" using "2.prems"(2) by simp
    have d: "distinct (map fst rest)" using "2.prems"(1) by simp
    show ?thesis
    proof (cases "map_of (linked_type v) n")
      case None
      then show ?thesis using "2.prems"(5) by simp
    next
      case (Some var_type)
      show ?thesis
      proof (cases "offsets var_type")
        case None
        show ?thesis
        proof (cases "readable_links True v")
          case (Inl e)
          then show ?thesis using "2.prems"(5) Some None by simp
        next
          case (Inr ls)
          then show ?thesis
            using "2.IH"(1) [OF Some None Inr d m "2.prems"(3,4)] "2.prems"(5) Some None
            by simp
        qed
      next
        case (Some o2)
        note off2 = this
        show ?thesis
          using "2.IH"(2) [OF \<open>map_of (linked_type v) n = Some var_type\<close> off2 d m]
                "2.prems"(3,4,5) \<open>map_of (linked_type v) n = Some var_type\<close> off2
          by simp
      qed
    qed
  qed
qed

lemma apply_offsets_loop_absent:
  "distinct (map fst al) \<Longrightarrow> map_of al name = Some s \<Longrightarrow>
   map_of (linked_type v) name = Some ty \<Longrightarrow> offs ty = None \<Longrightarrow>
   apply_offsets_loop offs al v out = (Inr u, v', out') \<Longrightarrow>
   map_of (linked_idxs v') name = map_of (linked_idxs v) name \<and>
   (\<exists>pre post ls. readable_links True v = Inr ls \<and>
      out' = pre @ [''Unknown variable type'', ty, ''in variable links'', ls] @ post)"
proof (induction offs al v out rule: apply_offsets_loop.induct)
  case (1 offsets v out)
  then show ?case by simp
next
  case (2 offsets n s0 rest v out)
  show ?case
  proof (cases "n = name")
    case True
    have notin: "name \<notin> fst ` set rest" using "2.prems"(1) True by simp
    obtain ls where ls: "readable_links True v = Inr ls"
      using "2.prems" True by (cases "readable_links True v") auto
    let ?out1 = "out @ [''Unknown variable type'', ty, ''in variable links'', ls]"
    have run: "apply_offsets_loop offsets rest v ?out1 = (Inr u, v', out')"
      using "2.prems" True ls by simp
    from apply_offsets_loop_out [OF run] obtain post where "out' = ?out1 @ post" by blast
    then have "out' = out @ [''Unknown variable type'', ty, ''in variable links'', ls] @ post"
      by simp
    then show ?thesis using apply_offsets_loop_other [OF notin run] ls by blast
  next
    case False
    then have m: "map_of rest name = Some s" using "2.prems"(2) by simp
    have d: "distinct (map fst rest)" using "2.prems"(1) by simp
    show ?thesis
    proof (cases "map_of (linked_type v) n")
      case None
      then show ?thesis using "2.prems"(5) by simp
    next
      case (Some var_type)
      note vt = this
      show ?thesis
      proof (cases "offsets var_type")
        case None
        show ?thesis
        proof (cases "readable_links True v")
          case (Inl e)
          then show ?thesis using "2.prems"(5) vt None by simp
        next
          case (Inr ls)
          then show ?thesis
            using "2.IH"(1) [OF vt None Inr d m "2.prems"(3,4)] "2.prems"(5) vt None
            by simp
        qed
      next
        case (Some o2)
        let ?v1 = "v\<lparr>linked_idxs := AList.update n (map (\<lambda>i. i + o2) s0) (linked_idxs v)\<rparr>"
        have run: "apply_offsets_loop offsets rest ?v1 out = (Inr u, v', out')"
          using "2.prems"(5) vt Some by simp
        have "map_of (linked_type ?v1) name = Some ty" using "2.prems"(3) by simp
        from "2.IH"(2) [OF vt Some d m this "2.prems"(4) run]
        show ?thesis using False by (simp add: update_conv')
      qed
    qed
  qed
qed

lemma set_update_subset: "set (AList.update k x al) \<subseteq> insert (k, x) (set al)"
  by (induction al) auto

lemma pyset_add_distinct: "distinct s \<Longrightarrow> distinct (pyset_add i s)"
  by (simp add: pyset_add_def)

lemma fold_pyset_add_distinct: "distinct s \<Longrightarrow> distinct (fold pyset_add xs s)"
  by (induction xs arbitrary: s) (simp_all add: pyset_add_distinct)

lemma pyset_of_distinct: "distinct (pyset_of xs)"
  by (simp add: pyset_of_def fold_pyset_add_distinct)

lemma pyset_update_raw_distinct:
  "distinct s \<Longrightarrow> pyset_update_raw vars s = (r, s') \<Longrightarrow> distinct s'"
proof (induction vars arbitrary: s)
  case Nil
  then show ?case by simp
next
  case (Cons var rest)
  show ?case
  proof (cases "raw_idx var")
    case (Inl e)
    then show ?thesis using Cons.prems by simp
  next
    case (Inr i)
    then have "pyset_update_raw rest (pyset_add i s) = (r, s')" using Cons.prems by simp
    moreover have "distinct (pyset_add i s)" using Cons.prems(1) by (rule pyset_add_distinct)
    ultimately show ?thesis using Cons.IH by blast
  qed
qed

lemma raw_sets_ok_update:
  "raw_sets_ok v \<Longrightarrow> distinct s \<Longrightarrow>
   raw_sets_ok (v\<lparr>raw_linked_idxs := AList.update name s (raw_linked_idxs v)\<rparr>)"
  using set_update_subset [of name s "raw_linked_idxs v"]
  by (auto simp: raw_sets_ok_def list_all_iff)

lemma raw_sets_ok_lookup:
  "raw_sets_ok v \<Longrightarrow> map_of (raw_linked_idxs v) name = Some s \<Longrightarrow> distinct s"
proof -
  assume ok: "raw_sets_ok v" and m: "map_of (raw_linked_idxs v) name = Some s"
  from m have "(name, s) \<in> set (raw_linked_idxs v)" by (rule map_of_SomeD)
  then show "distinct s" using ok by (force simp: raw_sets_ok_def list_all_iff)
qed

lemma raw_sets_ok_bind:
  "raw_sets_ok v \<Longrightarrow> bind_link_type name ty v = (r, v', out) \<Longrightarrow> raw_sets_ok v'"
  using bind_link_type_raw [of name ty v r v' out] by (simp add: raw_sets_ok_def)

lemma raw_sets_ok_add_link:
  assumes "raw_sets_ok v"
  shows "raw_sets_ok (fst (snd (add_link name var v)))"
proof -
  obtain r v' out where b: "bind_link_type name (type var) v = (r, v', out)"
    by (cases "bind_link_type name (type var) v") auto
  have ok: "raw_sets_ok v'" using assms b by (rule raw_sets_ok_bind)
  have "\<And>i s. map_of (raw_linked_idxs v') name = Some s \<Longrightarrow> distinct (pyset_add i s)"
    using ok raw_sets_ok_lookup pyset_add_distinct by blast
  then show ?thesis using b ok
    by (auto simp: add_link_def raw_sets_ok_update split: sum.splits option.splits)
qed

lemma raw_sets_ok_add_links:
  assumes "raw_sets_ok v"
  shows "raw_sets_ok (fst (snd (add_links name vars v)))"
proof (cases vars)
  case Nil
  then show ?thesis using assms by (simp add: add_links_def)
next
  case (Cons var0 rest)
  obtain r v' out where b: "bind_link_type name (type var0) v = (r, v', out)"
    by (cases "bind_link_type name (type var0) v") auto
  have ok: "raw_sets_ok v'" using assms b by (rule raw_sets_ok_bind)
  have "\<And>s r2 s'. map_of (raw_linked_idxs v') name = Some s \<Longrightarrow>
          pyset_update_raw vars s = (r2, s') \<Longrightarrow> distinct s'"
    using ok raw_sets_ok_lookup pyset_update_raw_distinct by blast
  then show ?thesis using b ok Cons
    by (auto simp: add_links_def raw_sets_ok_update pyset_of_distinct
             split: sum.splits option.splits prod.splits)
qed

lemma raw_sets_ok_exec: "raw_sets_ok v \<Longrightarrow> raw_sets_ok (exec c v)"
proof (cases c)
  case (SetIdx i)
  assume "raw_sets_ok v"
  then show ?thesis using SetIdx raw_sets_ok_update [of v "[i]" "''own_idx''"]
    by (simp add: set_idx_def raw_sets_ok_def)
next
  case (AddLink name var)
  assume "raw_sets_ok v"
  then show ?thesis using AddLink by (simp add: raw_sets_ok_add_link)
next
  case (AddLinks name vars)
  assume "raw_sets_ok v"
  then show ?thesis using AddLinks by (simp add: raw_sets_ok_add_links)
next
  case (ApplyOffsets offsets)
  assume "raw_sets_ok v"
  then show ?thesis using ApplyOffsets apply_offsets_frame [of offsets v]
    by (simp add: raw_sets_ok_def)
qed (simp_all add: raw_sets_ok_def add_grounding_def set_coeff_def set_metadata_def
       general_def iff_def iff_exactly_def implies_def implies_at_least_def has_flow_over_def
       set_upper_bound_def consumes_flow_between_def requires_flow_between_def)

lemma raw_sets_ok_history: "raw_sets_ok (run cs (Variable_init t kw))"
proof -
  have "raw_sets_ok v \<Longrightarrow> raw_sets_ok (run cs v)" for v
    by (induction cs arbitrary: v) (simp_all add: raw_sets_ok_exec)
  then show ?thesis by (simp add: raw_sets_ok_def Variable_init_def)
qed

lemma link_size_is_card:
  "map_of (raw_linked_idxs (run cs (Variable_init t kw))) name = Some s \<Longrightarrow>
   length s = card (set s)"
  using raw_sets_ok_history raw_sets_ok_lookup distinct_card by fastforce

section \<open>Properties of the constraint templates\<close>

text \<open>
  C8. For every variable and every pair of link names,
  \<^verbatim>\<open>consumes_flow_between(incoming, outgoing)\<close> appends exactly one constraint,
  with terms \<open>[incoming, outgoing]\<close>, coefficients \<open>[1, -1]\<close>, operator \<open>=\<close> and
  right-hand side 1 (the keyword arguments are handed on as they are).
\<close>

theorem consumes_flow_between_constraint:
  "constraints (consumes_flow_between incoming outgoing kw v) =
     constraints v @
       [\<lparr>terms = [incoming, outgoing], coeffs = [PInt 1, PInt (- 1)],
         operator = ''='', rhs = PInt 1, kwargs = kw\<rparr>]
   \<and> length (constraints (consumes_flow_between incoming outgoing kw v)) =
         Suc (length (constraints v))"
  by (simp add: consumes_flow_between_def Constraint_def)

theorem consumes_flow_between_constraint_witness:
  "constraints (consumes_flow_between ''in'' ''out'' [] (Variable_init ''node'' [])) =
     [\<lparr>terms = [''in'', ''out''], coeffs = [PInt 1, PInt (- 1)],
       operator = ''='', rhs = PInt 1, kwargs = []\<rparr>]"
  using consumes_flow_between_constraint [of "''in''" "''out''" "[]" "Variable_init ''node'' []"]
  by (simp add: Variable_init_def)

text \<open>
  C6. For every variable and link name, \<^verbatim>\<open>implies(link)\<close> and \<^verbatim>\<open>iff(link)\<close>
  each append one constraint with terms \<open>['own_idx', link]\<close>, coefficients
  \<open>[link, -1]\<close> (the link name itself is the first coefficient) and right-hand
  side 0; the two constraints differ in the operator only, \<open><=\<close> for implies and
  \<open>=\<close> for iff.
\<close>

theorem implies_iff_constraints:
  "\<exists>ci ce.
     constraints (implies link kw v) = constraints v @ [ci] \<and>
     constraints (iff link kw v) = constraints v @ [ce] \<and>
     terms ci = [''own_idx'', link] \<and> terms ce = [''own_idx'', link] \<and>
     coeffs ci = [PStr link, PInt (- 1)] \<and> coeffs ce = [PStr link, PInt (- 1)] \<and>
     rhs ci = PInt 0 \<and> rhs ce = PInt 0 \<and>
     operator ci = ''<='' \<and> operator ce = ''='' \<and>
     ci\<lparr>operator := ''=''\<rparr> = ce"
  by (simp add: implies_def iff_def Constraint_def)

theorem implies_iff_constraints_witness:
  "constraints (implies ''kids'' [] (Variable_init ''node'' [])) =
     [\<lparr>terms = [''own_idx'', ''kids''], coeffs = [PStr ''kids'', PInt (- 1)],
       operator = ''<='', rhs = PInt 0, kwargs = []\<rparr>] \<and>
   constraints (iff ''kids'' [] (Variable_init ''node'' [])) =
     [\<lparr>terms = [''own_idx'', ''kids''], coeffs = [PStr ''kids'', PInt (- 1)],
       operator = ''='', rhs = PInt 0, kwargs = []\<rparr>]"
  using implies_iff_constraints [of "''kids''" "[]" "Variable_init ''node'' []"]
  by (simp add: implies_def iff_def Constraint_def Variable_init_def)

text \<open>On every object the assignment at the end of \<^verbatim>\<open>has_flow_over\<close> raises,
  after the constraint has been appended.\<close>

lemma has_flow_over_always_raises:
  "fst (has_flow_over link max_flow kw v) = Inl (AttributeError ''upper_bound'') \<and>
   upper_bound (snd (has_flow_over link max_flow kw v)) = upper_bound v \<and>
   constraints (snd (has_flow_over link max_flow kw v)) =
     constraints v @
       [Constraint [''own_idx'', link] [PInt 1, PInt (- max_flow)] ''<='' (PInt 0) kw]"
  by (simp add: has_flow_over_def set_upper_bound_def Variable_slots_def)

text \<open>
  C4. \<^verbatim>\<open>has_flow_over\<close> at the input \<^verbatim>\<open>Variable('flow').has_flow_over('ind', 5)\<close>:
  the constraint with coefficients \<open>[1, -5]\<close>, operator \<open><=\<close> and right-hand side 0
  is appended, and the assignment of the upper bound that follows raises
  AttributeError, because \<^verbatim>\<open>upper_bound\<close> is not among \<^verbatim>\<open>__slots__\<close>; no upper
  bound is stored.
\<close>

theorem has_flow_over_raises:
  "has_flow_over ''ind'' 5 [] (Variable_init ''flow'' []) =
     (Inl (AttributeError ''upper_bound''),
      (Variable_init ''flow'' [])
        \<lparr>constraints :=
           [\<lparr>terms = [''own_idx'', ''ind''], coeffs = [PInt 1, PInt (- 5)],
             operator = ''<='', rhs = PInt 0, kwargs = []\<rparr>]\<rparr>)
   \<and> upper_bound (snd (has_flow_over ''ind'' 5 [] (Variable_init ''flow'' []))) = None"
  by (simp add: has_flow_over_def set_upper_bound_def Variable_slots_def
        Variable_init_def Constraint_def)

section \<open>Properties of the grounding lookup\<close>

lemma map_filter_append:
  "List.map_filter f (xs @ ys) = List.map_filter f xs @ List.map_filter f ys"
  by (simp add: List.map_filter_def)

lemma retrieve_grounding_loop_eq:
  "retrieve_grounding_loop v names vals out =
     (vals @ List.map_filter (map_of (grounding v)) names,
      out @ concat (map (unknown_grounding_items v)
                      (filter (\<lambda>n. map_of (grounding v) n = None) names)))"
  by (induction names arbitrary: vals out)
     (auto simp: unknown_grounding_items_def split: option.splits)

lemma retrieve_grounding_eq:
  "retrieve_grounding names v =
     (let vals = List.map_filter (map_of (grounding v)) names in
        (if length vals = 1 then Inr (vals ! 0) else Inr (PList vals),
         concat (map (unknown_grounding_items v)
                   (filter (\<lambda>n. map_of (grounding v) n = None) names))))"
  by (simp add: retrieve_grounding_def retrieve_grounding_loop_eq Let_def)

text \<open>
  C10. \<^verbatim>\<open>retrieve_grounding(names...)\<close> leaves out of its result every requested
  name absent from the grounding; when exactly one value is found it returns
  that value bare, otherwise the list of the values found. A single name
  returns its value when stored and the empty list when missing.
\<close>

theorem retrieve_grounding_shape:
  "fst (retrieve_grounding names v) =
     (let vals = List.map_filter (map_of (grounding v)) names in
        if length vals = 1 then Inr (vals ! 0) else Inr (PList vals))
   \<and> fst (retrieve_grounding [name] v) =
       (case map_of (grounding v) name of None \<Rightarrow> Inr (PList []) | Some x \<Rightarrow> Inr x)"
  by (simp add: retrieve_grounding_eq Let_def split: option.splits)

theorem retrieve_grounding_shape_witness:
  "fst (retrieve_grounding [''a'', ''zz'', ''b'']
          (Variable_init ''node'' [(''a'', PInt 1), (''b'', PStr ''x'')])) =
     Inr (PList [PInt 1, PStr ''x'']) \<and>
   fst (retrieve_grounding [''a'', ''zz''] (Variable_init ''node'' [(''a'', PInt 1)])) =
     Inr (PInt 1) \<and>
   fst (retrieve_grounding [''zz''] (Variable_init ''node'' [(''a'', PInt 1)])) =
     Inr (PList [])"
  using retrieve_grounding_shape
          [of "[''a'', ''zz'', ''b'']"
              "Variable_init ''node'' [(''a'', PInt 1), (''b'', PStr ''x'')]" "''zz''"]
        retrieve_grounding_shape
          [of "[''a'', ''zz'']" "Variable_init ''node'' [(''a'', PInt 1)]" "''zz''"]
  by (simp add: Variable_init_def Let_def)

text \<open>
  C9, as claimed, would make the result for a key never stored differ from the
  result for any stored value. It does not: a missing key \<open>x\<close> and a key \<open>x\<close>
  stored with the empty list give the same returned value, and neither call
  raises.
\<close>

theorem retrieve_grounding_missing_same_as_stored:
  "map_of (grounding (Variable_init ''node'' [])) ''x'' = None \<and>
   map_of (grounding (Variable_init ''node'' [(''x'', PList [])])) ''x'' = Some (PList []) \<and>
   fst (retrieve_grounding [''x''] (Variable_init ''node'' [])) =
   fst (retrieve_grounding [''x''] (Variable_init ''node'' [(''x'', PList [])]))"
  by (simp add: retrieve_grounding_def Variable_init_def)


text \<open>
  C9, amended. \<^verbatim>\<open>retrieve_grounding\<close> called with a key that was never stored
  raises nothing and returns what the same call without that key returns; the
  missing key shows on standard output only, where the call prints, at the
  key's position among the other messages, an error naming the key and the
  variable's type.
\<close>

theorem retrieve_grounding_missing_key:
  assumes "map_of (grounding v) name = None"
  shows "fst (retrieve_grounding (pre @ name # post) v) = fst (retrieve_grounding (pre @ post) v)
       \<and> (\<exists>x. fst (retrieve_grounding (pre @ name # post) v) = Inr x)
       \<and> snd (retrieve_grounding (pre @ name # post) v) =
           snd (retrieve_grounding pre v)
           @ [''ERROR: unknown grounding attribute'', name, ''for'', type v, ''variable'']
           @ snd (retrieve_grounding post v)"
  using assms
  by (simp add: retrieve_grounding_eq Let_def map_filter_append unknown_grounding_items_def)

theorem retrieve_grounding_missing_key_witness:
  "map_of (grounding (Variable_init ''node'' [(''a'', PInt 1)])) ''zz'' = None \<and>
   retrieve_grounding [''a'', ''zz''] (Variable_init ''node'' [(''a'', PInt 1)]) =
     (Inr (PInt 1), [''ERROR: unknown grounding attribute'', ''zz'', ''for'', ''node'', ''variable''])"
  using retrieve_grounding_missing_key
          [of "Variable_init ''node'' [(''a'', PInt 1)]" "''zz''" "[''a'']" "[]"]
  by (simp add: retrieve_grounding_def Variable_init_def)

section \<open>Properties of the index translation\<close>

lemma wf_history: "wf (run cs (Variable_init t kw))"
  by (simp add: wf_run wf_init)

lemma wf_set_idx: "wf v \<Longrightarrow> wf (set_idx i v)"
  using wf_exec [of v "SetIdx i"] by simp

lemma apply_offsets_ok: "wf v \<Longrightarrow> fst (apply_offsets offsets v) = Inr ()"
  unfolding apply_offsets_def wf_def by (simp add: apply_offsets_loop_ok)

text \<open>The translation of the own index, for any state in which the
  invariants hold.\<close>

lemma idx_apply_offsets_inv:
  assumes w: "wf v" and o: "own_assigned v" and k: "offsets (type v) = Some k"
  shows "\<exists>r. raw_idx v = Inr r \<and>
             fst (apply_offsets offsets v) = Inr () \<and>
             idx (fst (snd (apply_offsets offsets v))) = Inr (r + k) \<and>
             raw_idx (fst (snd (apply_offsets offsets v))) = Inr r"
proof -
  from o obtain r s where
    own: "map_of (raw_linked_idxs v) ''own_idx'' = Some (r # s)" and
    ty: "map_of (linked_type v) ''own_idx'' = Some (type v)"
    by (auto simp: own_assigned_def raw_idx_Inr_iff)
  obtain v' out where a: "apply_offsets offsets v = (Inr (), v', out)"
    using apply_offsets_ok [OF w, of offsets] by (cases "apply_offsets offsets v") auto
  have d: "distinct (map fst (raw_linked_idxs v))" using w by (simp add: wf_def)
  have "map_of (linked_idxs v') ''own_idx'' = Some (map (\<lambda>i. i + k) (r # s))"
    using apply_offsets_loop_value
            [where offs = offsets and v = v and ty = "type v", OF d own ty k] a
    unfolding apply_offsets_def by blast
  then have "idx v' = Inr (r + k)" by (simp add: idx_def)
  moreover have "raw_idx v = Inr r" using own by (simp add: raw_idx_def)
  moreover have "raw_idx v' = Inr r"
    using own apply_offsets_frame [of offsets v] a by (simp add: raw_idx_def)
  ultimately show ?thesis using a by simp
qed

text \<open>
  C1. For every variable whose raw index has been assigned by \<^verbatim>\<open>set_idx\<close> (at
  any point of its history) and every offset map with an entry \<open>k\<close> for the
  variable's type, \<^verbatim>\<open>apply_offsets\<close> returns normally and \<^verbatim>\<open>idx()\<close> then returns
  \<^verbatim>\<open>raw_idx() + k\<close>. The offsets of the other links' types are not needed
  for this.
\<close>

theorem idx_after_apply_offsets:
  assumes "v = run cs' (set_idx i (run cs (Variable_init t kw)))"
      and "offsets (type v) = Some k"
  shows "\<exists>r. raw_idx v = Inr r \<and>
             fst (apply_offsets offsets v) = Inr () \<and>
             idx (fst (snd (apply_offsets offsets v))) = Inr (r + k) \<and>
             raw_idx (fst (snd (apply_offsets offsets v))) = Inr r"
proof -
  have w: "wf v" using assms(1) by (simp add: wf_run wf_set_idx wf_init)
  have o: "own_assigned v"
    using assms(1) own_assigned_run [OF own_assigned_set_idx] by simp
  from w o assms(2) show ?thesis by (rule idx_apply_offsets_inv)
qed

theorem idx_after_apply_offsets_witness:
  "[''node'' \<mapsto> (10::int), ''edge'' \<mapsto> 100]
     (type (run [AddLink ''foo'' (set_idx 2 (Variable_init ''edge'' []))]
              (set_idx 3 (run [] (Variable_init ''node'' []))))) = Some 10 \<and>
   raw_idx (run [AddLink ''foo'' (set_idx 2 (Variable_init ''edge'' []))]
              (set_idx 3 (run [] (Variable_init ''node'' [])))) = Inr 3 \<and>
   idx (fst (snd (apply_offsets [''node'' \<mapsto> 10, ''edge'' \<mapsto> 100]
                    (run [AddLink ''foo'' (set_idx 2 (Variable_init ''edge'' []))]
                       (set_idx 3 (run [] (Variable_init ''node'' []))))))) = Inr 13"
proof -
  let ?v = "run [AddLink ''foo'' (set_idx 2 (Variable_init ''edge'' []))]
              (set_idx 3 (run [] (Variable_init ''node'' [])))"
  let ?offsets = "[''node'' \<mapsto> (10::int), ''edge'' \<mapsto> 100]"
  have t: "type ?v = ''node''" by code_simp
  have h: "?offsets (type ?v) = Some 10" unfolding t by simp
  have r: "raw_idx ?v = Inr 3" by code_simp
  from idx_after_apply_offsets
         [where v = ?v and cs' = "[AddLink ''foo'' (set_idx 2 (Variable_init ''edge'' []))]"
            and i = 3 and cs = "[]" and t = "''node''" and kw = "[]"
            and offsets = ?offsets and k = 10, OF refl h]
  obtain r' where a: "raw_idx ?v = Inr r'"
    and b: "idx (fst (snd (apply_offsets ?offsets ?v))) = Inr (r' + 10)"
    by blast
  have "Inr 3 = (Inr r' :: py_error + int)" using a unfolding r .
  then have "r' + 10 = 13" by simp
  then have "idx (fst (snd (apply_offsets ?offsets ?v))) = Inr 13" using b by (simp only:)
  then show ?thesis using h r by blast
qed

text \<open>
  C7. For every variable whose raw index has been assigned (\<^verbatim>\<open>raw_idx()\<close>
  returns \<open>i\<close>), \<^verbatim>\<open>get_unique_id()\<close> returns the variable's type followed by the
  decimal text of \<open>i\<close>, and returns the same after \<^verbatim>\<open>apply_offsets\<close>, whatever
  the offsets and whatever the outcome of that call.
\<close>

theorem get_unique_id_stable:
  assumes "raw_idx v = Inr i"
  shows "get_unique_id v = Inr (type v @ str_int i) \<and>
         get_unique_id (fst (snd (apply_offsets offsets v))) = Inr (type v @ str_int i)"
proof -
  from assms obtain s where own: "map_of (raw_linked_idxs v) ''own_idx'' = Some (i # s)"
    by (auto simp: raw_idx_Inr_iff)
  then show ?thesis
    using apply_offsets_frame [of offsets v] by (simp add: get_unique_id_def)
qed

theorem get_unique_id_stable_witness:
  "raw_idx (set_idx 42 (Variable_init ''node'' [])) = Inr 42 \<and>
   get_unique_id (set_idx 42 (Variable_init ''node'' [])) = Inr ''node42'' \<and>
   get_unique_id (fst (snd (apply_offsets [''node'' \<mapsto> 10]
                              (set_idx 42 (Variable_init ''node'' []))))) = Inr ''node42''"
proof -
  have r: "raw_idx (set_idx 42 (Variable_init ''node'' [])) = Inr 42"
    by (simp add: set_idx_def Variable_init_def raw_idx_def)
  have s: "str_int 42 = ''42''"
    by (simp add: str_int_def str_nat.simps digit_char_def)
  have t: "type (set_idx 42 (Variable_init ''node'' [])) = ''node''"
    by (simp add: set_idx_def Variable_init_def)
  from get_unique_id_stable [OF r, of "[''node'' \<mapsto> 10]"] r s t show ?thesis by simp
qed

text \<open>
  C2, as claimed, would make \<^verbatim>\<open>apply_offsets\<close> end in an error when a link's
  bound type has no offset. It does not: for a node variable with a link
  \<open>foo\<close> to an edge variable and offsets for \<open>node\<close> only, the call returns
  normally, with the own index translated and no global indices for \<open>foo\<close>.
\<close>

theorem apply_offsets_unknown_type_returns:
  "map_of (linked_type (run [SetIdx 3, AddLink ''foo'' (set_idx 2 (Variable_init ''edge'' []))]
                          (Variable_init ''node'' []))) ''foo'' = Some ''edge'' \<and>
   [''node'' \<mapsto> (10::int)] ''edge'' = None \<and>
   fst (apply_offsets [''node'' \<mapsto> 10]
          (run [SetIdx 3, AddLink ''foo'' (set_idx 2 (Variable_init ''edge'' []))]
             (Variable_init ''node'' []))) = Inr () \<and>
   linked_idxs (fst (snd (apply_offsets [''node'' \<mapsto> 10]
          (run [SetIdx 3, AddLink ''foo'' (set_idx 2 (Variable_init ''edge'' []))]
             (Variable_init ''node'' []))))) = [(''own_idx'', [13])]"
  by code_simp

text \<open>
  C2, amended. For every variable with a link that has recorded indices and
  whose bound type is absent from the offset map, \<^verbatim>\<open>apply_offsets\<close> raises
  nothing: it returns normally, prints \<open>Unknown variable type\<close>, the type,
  \<open>in variable links\<close> and the listing of the raw links, leaves the global
  indices of that link as they were, and translates every link whose bound
  type has an offset.
\<close>

theorem apply_offsets_unknown_type:
  assumes "v = run cs (Variable_init t kw)"
      and "map_of (raw_linked_idxs v) name = Some s"
      and "map_of (linked_type v) name = Some T"
      and "offsets T = None"
  shows "fst (apply_offsets offsets v) = Inr () \<and>
         map_of (linked_idxs (fst (snd (apply_offsets offsets v)))) name =
           map_of (linked_idxs v) name \<and>
         (\<exists>pre post ls. readable_links True v = Inr ls \<and>
            snd (snd (apply_offsets offsets v)) =
              pre @ [''Unknown variable type'', T, ''in variable links'', ls] @ post) \<and>
         (\<forall>n s' ty off.
            map_of (raw_linked_idxs v) n = Some s' \<and> map_of (linked_type v) n = Some ty \<and>
            offsets ty = Some off \<longrightarrow>
            map_of (linked_idxs (fst (snd (apply_offsets offsets v)))) n =
              Some (map (\<lambda>i. i + off) s'))"
proof -
  have w: "wf v" using assms(1) by (simp add: wf_history)
  obtain v' out where a: "apply_offsets offsets v = (Inr (), v', out)"
    using apply_offsets_ok [OF w, of offsets] by (cases "apply_offsets offsets v") auto
  then have l: "apply_offsets_loop offsets (raw_linked_idxs v) v [] = (Inr (), v', out)"
    by (simp add: apply_offsets_def)
  have d: "distinct (map fst (raw_linked_idxs v))" using w by (simp add: wf_def)
  from apply_offsets_loop_absent
         [where offs = offsets and v = v and ty = T, OF d assms(2) assms(3) assms(4) l]
  have 1: "map_of (linked_idxs v') name = map_of (linked_idxs v) name"
    and 2: "\<exists>pre post ls. readable_links True v = Inr ls \<and>
              out = pre @ [''Unknown variable type'', T, ''in variable links'', ls] @ post"
    by blast+
  have 3: "map_of (linked_idxs v') n = Some (map (\<lambda>i. i + off) s')"
    if "map_of (raw_linked_idxs v) n = Some s'" "map_of (linked_type v) n = Some ty"
       "offsets ty = Some off" for n s' ty off
    using apply_offsets_loop_value
            [where offs = offsets and v = v and ty = ty, OF d that(1) that(2) that(3) l] .
  show ?thesis using a 1 2 3 by simp
qed

theorem apply_offsets_unknown_type_witness:
  "map_of (raw_linked_idxs (run [SetIdx 3, AddLink ''foo'' (set_idx 2 (Variable_init ''edge'' []))]
                              (Variable_init ''node'' []))) ''foo'' = Some [2] \<and>
   map_of (linked_type (run [SetIdx 3, AddLink ''foo'' (set_idx 2 (Variable_init ''edge'' []))]
                          (Variable_init ''node'' []))) ''foo'' = Some ''edge'' \<and>
   [''node'' \<mapsto> (10::int)] ''edge'' = None \<and>
   fst (apply_offsets [''node'' \<mapsto> 10]
          (run [SetIdx 3, AddLink ''foo'' (set_idx 2 (Variable_init ''edge'' []))]
             (Variable_init ''node'' []))) = Inr () \<and>
   map_of (linked_idxs (fst (snd (apply_offsets [''node'' \<mapsto> 10]
          (run [SetIdx 3, AddLink ''foo'' (set_idx 2 (Variable_init ''edge'' []))]
             (Variable_init ''node'' [])))))) ''foo'' = None"
proof -
  let ?v = "run [SetIdx 3, AddLink ''foo'' (set_idx 2 (Variable_init ''edge'' []))]
              (Variable_init ''node'' [])"
  let ?offsets = "[''node'' \<mapsto> (10::int)]"
  have h1: "map_of (raw_linked_idxs ?v) ''foo'' = Some [2]" by code_simp
  have h2: "map_of (linked_type ?v) ''foo'' = Some ''edge''" by code_simp
  have h3: "?offsets ''edge'' = None" by simp
  have h4: "map_of (linked_idxs ?v) ''foo'' = None" by code_simp
  from apply_offsets_unknown_type
         [where v = ?v and cs = "[SetIdx 3, AddLink ''foo'' (set_idx 2 (Variable_init ''edge'' []))]"
            and t = "''node''" and kw = "[]" and offsets = ?offsets and name = "''foo''"
            and T = "''edge''" and s = "[2]", OF refl h1 h2 h3]
  have a: "fst (apply_offsets ?offsets ?v) = Inr ()"
    and b: "map_of (linked_idxs (fst (snd (apply_offsets ?offsets ?v)))) ''foo'' =
              map_of (linked_idxs ?v) ''foo''"
    by blast+
  from b have "map_of (linked_idxs (fst (snd (apply_offsets ?offsets ?v)))) ''foo'' = None"
    unfolding h4 .
  then show ?thesis using h1 h2 h3 a by blast
qed

section \<open>Properties of the link registry\<close>

text \<open>
  C3. For every variable (built by the constructor and any sequence of calls)
  on which a link name is bound to type \<open>T\<close>, \<^verbatim>\<open>add_link(name, other)\<close> with
  \<open>other.type \<noteq> T\<close>, and \<^verbatim>\<open>add_links(name, others)\<close> with such a variable
  first in \<open>others\<close>, print the error line, which holds the variable's type,
  the link name, the bound type and the offending type, then the raw links,
  and raise an exception; the object is left as it was, so the name stays
  bound to \<open>T\<close>.
\<close>

theorem link_type_conflict:
  assumes "v = run cs (Variable_init t kw)"
      and "map_of (linked_type v) name = Some T"
      and "type other \<noteq> T"
  shows "\<exists>ls. readable_links True v = Inr ls \<and>
           add_link name other v =
             (Inl PyException, v, link_conflict_items v name T (type other) @ [ls]) \<and>
           add_links name (other # others) v =
             (Inl PyException, v, link_conflict_items v name T (type other) @ [ls]) \<and>
           {type v, name, T, type other} \<subseteq> set (link_conflict_items v name T (type other))"
proof -
  have "wf v" using assms(1) by (simp add: wf_history)
  then obtain ls where ls: "readable_links True v = Inr ls"
    using readable_links_raw by blast
  have b: "bind_link_type name (type other) v =
             (Inl PyException, v, link_conflict_items v name T (type other) @ [ls])"
    using assms(2,3) ls by (simp add: bind_link_type_def)
  have "add_link name other v =
          (Inl PyException, v, link_conflict_items v name T (type other) @ [ls])"
    by (simp add: add_link_def b)
  moreover have "add_links name (other # others) v =
          (Inl PyException, v, link_conflict_items v name T (type other) @ [ls])"
    by (simp add: add_links_def b)
  moreover have "{type v, name, T, type other} \<subseteq> set (link_conflict_items v name T (type other))"
    by (simp add: link_conflict_items_def)
  ultimately show ?thesis using ls by blast
qed

theorem link_type_conflict_witness:
  "map_of (linked_type (run [AddLink ''foo'' (set_idx 2 (Variable_init ''edge'' []))]
                          (Variable_init ''node'' []))) ''foo'' = Some ''edge'' \<and>
   type (set_idx 5 (Variable_init ''word'' [])) \<noteq> ''edge'' \<and>
   fst (add_link ''foo'' (set_idx 5 (Variable_init ''word'' []))
          (run [AddLink ''foo'' (set_idx 2 (Variable_init ''edge'' []))]
             (Variable_init ''node'' []))) = Inl PyException \<and>
   map_of (linked_type (fst (snd (add_link ''foo'' (set_idx 5 (Variable_init ''word'' []))
          (run [AddLink ''foo'' (set_idx 2 (Variable_init ''edge'' []))]
             (Variable_init ''node'' [])))))) ''foo'' = Some ''edge''"
proof -
  let ?v = "run [AddLink ''foo'' (set_idx 2 (Variable_init ''edge'' []))]
              (Variable_init ''node'' [])"
  let ?other = "set_idx 5 (Variable_init ''word'' [])"
  have h1: "map_of (linked_type ?v) ''foo'' = Some ''edge''" by code_simp
  have h2: "type ?other \<noteq> ''edge''" by code_simp
  from link_type_conflict
         [where v = ?v and cs = "[AddLink ''foo'' (set_idx 2 (Variable_init ''edge'' []))]"
            and t = "''node''" and kw = "[]" and name = "''foo''" and T = "''edge''"
            and other = ?other, OF refl h1 h2]
  obtain ls where a: "add_link ''foo'' ?other ?v =
      (Inl PyException, ?v, link_conflict_items ?v ''foo'' ''edge'' (type ?other) @ [ls])"
    by blast
  have "fst (add_link ''foo'' ?other ?v) = Inl PyException" unfolding a by simp
  moreover have "map_of (linked_type (fst (snd (add_link ''foo'' ?other ?v)))) ''foo'' =
                   Some ''edge''"
    unfolding a using h1 by (simp only: fst_conv snd_conv)
  ultimately show ?thesis using h1 h2 by blast
qed

lemma pyset_add_idem: "pyset_add i (pyset_add i s) = pyset_add i s"
  by (simp add: pyset_add_def)

lemma pyset_add_mem: "i \<in> set (pyset_add i s)"
  by (simp add: pyset_add_def)

lemma bind_link_type_same:
  "map_of (linked_type v) name = Some ty \<Longrightarrow> bind_link_type name ty v = (Inr (), v, [])"
  by (simp add: bind_link_type_def)

lemma bind_link_type_fail:
  "bind_link_type name ty v = (Inl e, v', out) \<Longrightarrow> v' = v"
  by (auto simp: bind_link_type_def split: option.splits if_splits sum.splits)

lemma add_link_twice_state:
  "fst (snd (add_link name var (fst (snd (add_link name var v))))) =
   fst (snd (add_link name var v))"
proof -
  obtain r v' out where b: "bind_link_type name (type var) v = (r, v', out)"
    by (cases "bind_link_type name (type var) v") auto
  show ?thesis
  proof (cases r)
    case (Inl e)
    then have "v' = v" using b bind_link_type_fail by blast
    then show ?thesis using b Inl by (simp add: add_link_def)
  next
    case (Inr u)
    then have bound: "map_of (linked_type v') name = Some (type var)"
      using b by (simp add: bind_link_type_bound)
    then have b2: "bind_link_type name (type var) v' = (Inr (), v', [])"
      by (rule bind_link_type_same)
    show ?thesis
    proof (cases "raw_idx var")
      case (Inl e)
      then show ?thesis using b Inr b2
        by (simp add: add_link_def split: option.splits)
    next
      case (Inr i)
      note i = this
      let ?s1 = "case map_of (raw_linked_idxs v') name of None \<Rightarrow> [i] | Some s \<Rightarrow> pyset_add i s"
      let ?v1 = "v'\<lparr>raw_linked_idxs := AList.update name ?s1 (raw_linked_idxs v')\<rparr>"
      have v1: "fst (snd (add_link name var v)) = ?v1"
        using b \<open>r = Inr u\<close> i by (simp add: add_link_def split: option.splits)
      have b3: "bind_link_type name (type var) ?v1 = (Inr (), ?v1, [])"
        using bound by (simp add: bind_link_type_same)
      have idem: "pyset_add i ?s1 = ?s1"
        by (simp add: pyset_add_idem pyset_add_def split: option.splits)
      have "fst (snd (add_link name var ?v1)) = ?v1"
        using b3 i idem by (simp add: add_link_def update_conv')
      then show ?thesis using v1 by simp
    qed
  qed
qed

lemma add_link_ok_again:
  assumes "fst (add_link name var v) = Inr ()"
  shows "fst (add_link name var (fst (snd (add_link name var v)))) = Inr () \<and>
         (\<exists>i s. raw_idx var = Inr i \<and>
                map_of (raw_linked_idxs (fst (snd (add_link name var v)))) name = Some s \<and>
                i \<in> set s)"
proof -
  obtain r v' out where b: "bind_link_type name (type var) v = (r, v', out)"
    by (cases "bind_link_type name (type var) v") auto
  from assms b obtain u where r: "r = Inr u"
    by (cases r) (auto simp: add_link_def)
  then have bound: "map_of (linked_type v') name = Some (type var)"
    using b by (simp add: bind_link_type_bound)
  from assms b r obtain i where i: "raw_idx var = Inr i"
    by (cases "raw_idx var") (auto simp: add_link_def split: option.splits)
  let ?s1 = "case map_of (raw_linked_idxs v') name of None \<Rightarrow> [i] | Some s \<Rightarrow> pyset_add i s"
  let ?v1 = "v'\<lparr>raw_linked_idxs := AList.update name ?s1 (raw_linked_idxs v')\<rparr>"
  have v1: "fst (snd (add_link name var v)) = ?v1"
    using b r i by (simp add: add_link_def split: option.splits)
  have b3: "bind_link_type name (type var) ?v1 = (Inr (), ?v1, [])"
    using bound by (simp add: bind_link_type_same)
  have "fst (add_link name var ?v1) = Inr ()"
    using b3 i by (simp add: add_link_def update_conv')
  moreover have "map_of (raw_linked_idxs ?v1) name = Some ?s1" by (simp add: update_conv')
  moreover have "i \<in> set ?s1" by (simp add: pyset_add_mem split: option.splits)
  ultimately show ?thesis using v1 i by simp
qed

text \<open>
  C5. For every variable, link name and target, a second \<^verbatim>\<open>add_link(name, target)\<close>
  with the same target leaves the object exactly as the first call left it; in
  particular the size of \<^verbatim>\<open>raw_linked_idxs[name]\<close> is unchanged. When the first
  call returns normally so does the second, and the target's raw index is in
  the link's set.
\<close>

theorem add_link_twice:
  "fst (snd (add_link name var (fst (snd (add_link name var v))))) =
     fst (snd (add_link name var v)) \<and>
   map_option length
     (map_of (raw_linked_idxs (fst (snd (add_link name var (fst (snd (add_link name var v)))))))
        name) =
   map_option length (map_of (raw_linked_idxs (fst (snd (add_link name var v)))) name) \<and>
   (fst (add_link name var v) = Inr () \<longrightarrow>
      fst (add_link name var (fst (snd (add_link name var v)))) = Inr () \<and>
      (\<exists>i s. raw_idx var = Inr i \<and>
             map_of (raw_linked_idxs (fst (snd (add_link name var v)))) name = Some s \<and>
             i \<in> set s))"
  using add_link_twice_state [of name var v] add_link_ok_again [of name var v]
  by (simp only:) blast

theorem add_link_twice_witness:
  "fst (add_link ''foo'' (set_idx 2 (Variable_init ''edge'' []))
          (set_idx 3 (Variable_init ''node'' []))) = Inr () \<and>
   map_of (raw_linked_idxs (fst (snd (add_link ''foo'' (set_idx 2 (Variable_init ''edge'' []))
          (set_idx 3 (Variable_init ''node'' [])))))) ''foo'' = Some [2] \<and>
   map_option length (map_of (raw_linked_idxs
      (fst (snd (add_link ''foo'' (set_idx 2 (Variable_init ''edge'' []))
         (fst (snd (add_link ''foo'' (set_idx 2 (Variable_init ''edge'' []))
            (set_idx 3 (Variable_init ''node'' []))))))))) ''foo'') = Some 1"
proof -
  let ?var = "set_idx 2 (Variable_init ''edge'' [])"
  let ?v = "set_idx 3 (Variable_init ''node'' [])"
  have h: "fst (add_link ''foo'' ?var ?v) = Inr ()" by code_simp
  have r: "map_of (raw_linked_idxs (fst (snd (add_link ''foo'' ?var ?v)))) ''foo'' = Some [2]"
    by code_simp
  from add_link_twice [of "''foo''" ?var ?v]
  have "map_option length
          (map_of (raw_linked_idxs (fst (snd (add_link ''foo'' ?var
              (fst (snd (add_link ''foo'' ?var ?v))))))) ''foo'') =
        map_option length (map_of (raw_linked_idxs (fst (snd (add_link ''foo'' ?var ?v)))) ''foo'')"
    by blast
  then have "map_option length
          (map_of (raw_linked_idxs (fst (snd (add_link ''foo'' ?var
              (fst (snd (add_link ''foo'' ?var ?v))))))) ''foo'') = Some 1"
    unfolding r by simp
  then show ?thesis using h r by blast
qed

text \<open>The target may be the object itself: \<^verbatim>\<open>add_link\<close> reads only the type
  and the raw index of its target, and a call on the object changes neither.\<close>

lemma add_link_reads:
  assumes "type var' = type var" and "raw_idx var' = raw_idx var"
  shows "add_link name var' v = add_link name var v"
  unfolding add_link_def assms ..

lemma add_link_self_type: "type (fst (snd (add_link name var v))) = type v"
  using link_step_add_link [of name v var] unfolding link_step_def by auto

lemma add_link_self_raw_idx: "raw_idx (fst (snd (add_link name v v))) = raw_idx v"
proof (cases "raw_idx v")
  case (Inl e)
  obtain r v' out where b: "bind_link_type name (type v) v = (r, v', out)"
    by (cases "bind_link_type name (type v) v") auto
  have "raw_linked_idxs v' = raw_linked_idxs v" using b by (rule bind_link_type_raw)
  then have "raw_idx v' = raw_idx v" by (simp add: raw_idx_def)
  then show ?thesis using b Inl
    by (cases r) (auto simp: add_link_def split: option.splits)
next
  case (Inr i)
  then obtain s where own: "map_of (raw_linked_idxs v) ''own_idx'' = Some (i # s)"
    by (auto simp: raw_idx_Inr_iff)
  from link_step_add_link [of name v v] obtain v' where
    v': "v' = v \<or> (map_of (linked_type v) name = None \<and>
             (\<exists>ty. v' = v\<lparr>linked_type := AList.update name ty (linked_type v)\<rparr>))" and
    v2: "fst (snd (add_link name v v)) = v' \<or>
            (\<exists>s'. fst (snd (add_link name v v)) =
                     v'\<lparr>raw_linked_idxs := AList.update name s' (raw_linked_idxs v')\<rparr> \<and>
                  (\<forall>s. map_of (raw_linked_idxs v) name = Some s \<longrightarrow> (\<exists>extra. s' = s @ extra)))"
    unfolding link_step_def by blast
  have a: "map_of (raw_linked_idxs v') ''own_idx'' = Some (i # s)"
    using v' own by auto
  have "\<exists>s2. map_of (raw_linked_idxs (fst (snd (add_link name v v)))) ''own_idx'' = Some (i # s2)"
    using v2 v' a own by (auto simp: update_conv')
  then show ?thesis using Inr by (auto simp: raw_idx_def)
qed

lemma add_link_self_twice:
  "fst (snd (add_link name (fst (snd (add_link name v v))) (fst (snd (add_link name v v))))) =
   fst (snd (add_link name v v))"
proof -
  let ?v1 = "fst (snd (add_link name v v))"
  have "add_link name ?v1 ?v1 = add_link name v ?v1"
    using add_link_self_type add_link_self_raw_idx by (rule add_link_reads)
  then show ?thesis using add_link_twice_state [of name v v] by simp
qed

end
